theory Spec2Isabelle
  imports Main
begin

section \<open>The keep-alive connection engine of server.ts\<close>

text \<open>
  The development embeds \<^verbatim>\<open>src/server.ts\<close>: the per-connection session
  (\<^verbatim>\<open>handleKeepAliveConn\<close>, \<^verbatim>\<open>scheduleReadRequest\<close>, \<^verbatim>\<open>processRequest\<close>), the
  supervisor (\<^verbatim>\<open>listenInternal\<close> with its \<^verbatim>\<open>close\<close> and \<^verbatim>\<open>acceptRoutine\<close>) and the two
  entry points. An \<^verbatim>\<open>async\<close> function is sequential between its \<^verbatim>\<open>await\<close>s, so a session is
  modelled as a function from what the environment answers at each \<^verbatim>\<open>await\<close> to the list
  of effects the session performs, in the order it performs them.
\<close>

subsection \<open>Data\<close>

text \<open>
  A JavaScript \<^verbatim>\<open>number\<close> that holds a count of seconds, milliseconds or requests: a
  double whose value is an integer (\<open>Finite n\<close>, for the integers \<open>n\<close> that a double can
  hold), \<^verbatim>\<open>Infinity\<close>, \<^verbatim>\<open>-Infinity\<close> or \<^verbatim>\<open>NaN\<close>. Doubles with a fractional part are
  left out, and \<^verbatim>\<open>-0\<close> is not told apart from \<^verbatim>\<open>0\<close>.
\<close>

datatype number = Finite int | Infinity | NegInfinity | NaN

text \<open>The identity of a promise handed around as a cancellation signal.\<close>

type_synonym promise_id = nat

text \<open>\<^verbatim>\<open>ServeOptions\<close>: each field is optional, \<open>None\<close> is \<^verbatim>\<open>undefined\<close>.\<close>

record ServeOptions =
  cancel :: "promise_id option"
  keepAliveTimeout :: "number option"
  readTimeout :: "number option"

text \<open>\<^verbatim>\<open>KeepAlive = { timeout: number; max: number }\<close>; \<open>max\<close> is taken in HOL.\<close>

record KeepAlive =
  timeout :: number
  max_ka :: number

text \<open>
  The fields of \<^verbatim>\<open>IncomingHttpRequest\<close> that the session reads. \<open>headers\<close> is the
  \<^verbatim>\<open>Headers\<close> object as it stores its entries (lower-case names, one entry per name), so
  that \<^verbatim>\<open>headers.get("connection")\<close> is a lookup.
\<close>

record IncomingHttpRequest =
  url :: string
  headers :: "(string \<times> string) list"
  keepAlive :: "KeepAlive option"

text \<open>The field of \<^verbatim>\<open>ServerResponse\<close> that the session reads.\<close>

record ServerResponse =
  status :: int

text \<open>
  How a promise that the session awaits ends: it resolves with a value, it rejects with an
  error (the message of the \<^verbatim>\<open>Error\<close>), or it never settles.
\<close>

datatype 'a outcome = Resolved 'a | Rejected string | Pending

text \<open>
  What the environment answers during one call of \<^verbatim>\<open>processRequest\<close>:
  \<^item> \<open>read_result\<close>: how \<^verbatim>\<open>readRequest(bufReader, opts)\<close> ends;
  \<^item> \<open>handler_result\<close>: how \<^verbatim>\<open>handler(req)\<close> ends, and when it returns, the response it
    passed to \<^verbatim>\<open>req.respond\<close> while it ran (\<open>None\<close> when it submitted none);
  \<^item> \<open>write_result\<close>: how the promise returned by \<^verbatim>\<open>q.enqueue(resp)\<close> ends, that is, how
    the write of the submitted response ends;
  \<^item> \<open>close_result\<close>: how \<^verbatim>\<open>req.body.close()\<close> ends.
\<close>

record cycle =
  read_result :: "IncomingHttpRequest outcome"
  handler_result :: "ServerResponse option outcome"
  write_result :: "unit outcome"
  close_result :: "unit outcome"

text \<open>The effects of a session, as they happen on its connection.\<close>

datatype event =
    ReadRequest ServeOptions         \<comment> \<open>\<^verbatim>\<open>readRequest(bufReader, opts)\<close> is called\<close>
  | HandlerCalled string             \<comment> \<open>\<^verbatim>\<open>handler(req)\<close> is called, \<open>req.url\<close> given\<close>
  | HandlerReturned                  \<comment> \<open>\<^verbatim>\<open>await handler(req)\<close> is over\<close>
  | ResponseFlushed "ServerResponse option"
      \<comment> \<open>\<^verbatim>\<open>await responded\<close> is over: the submitted response is written\<close>
  | BodyClosed                       \<comment> \<open>\<^verbatim>\<open>await req.body.close()\<close> is over\<close>
  | ConnClose                        \<comment> \<open>\<^verbatim>\<open>conn.close()\<close>\<close>

subsection \<open>Numbers\<close>

text \<open>The number of binary digits of a positive integer.\<close>

function bit_length :: "int \<Rightarrow> nat" where
  "bit_length n = (if n \<le> 0 then 0 else Suc (bit_length (n div 2)))"
  by pat_completeness auto
termination
  by (relation "measure nat") auto

text \<open>
  The double nearest to an integer \<open>r\<close>, as the result of an arithmetic operation is
  rounded (IEEE 754 binary64, round to nearest, ties to even). Up to \<open>2 ^ 53\<close> in absolute
  value every integer is a double. Above, a double has 53 significant binary digits: with
  \<open>e\<close> the number of digits that do not fit, the value is rounded to a multiple of
  \<open>2 ^ e\<close>; from \<open>2 ^ 1024\<close> on the result is infinite.
\<close>

definition round_double :: "int \<Rightarrow> number" where
  "round_double r =
     (if \<bar>r\<bar> \<le> 2 ^ 53 then Finite r
      else
        let e = bit_length \<bar>r\<bar> - 53;
            q = \<bar>r\<bar> div 2 ^ e;
            rest = \<bar>r\<bar> mod 2 ^ e;
            half = 2 ^ (e - 1);
            q' = (if half < rest \<or> (rest = half \<and> odd q) then q + 1 else q);
            m = q' * 2 ^ e
        in if 2 ^ 1024 \<le> m then (if r < 0 then NegInfinity else Infinity)
           else Finite (if r < 0 then - m else m))"

text \<open>The sign of a number, \<open>0\<close> for zero and for \<^verbatim>\<open>NaN\<close>.\<close>

fun sign_number :: "number \<Rightarrow> int" where
  "sign_number (Finite a) = sgn a"
| "sign_number Infinity = 1"
| "sign_number NegInfinity = - 1"
| "sign_number NaN = 0"

text \<open>
  \<^verbatim>\<open>a * b\<close>: the product of two finite numbers is rounded to a double; a product with
  \<^verbatim>\<open>NaN\<close>, or of an infinity and zero, is \<^verbatim>\<open>NaN\<close>; any other product with an infinity
  is the infinity of the product's sign.
\<close>

fun times_number :: "number \<Rightarrow> number \<Rightarrow> number" where
  "times_number NaN b = NaN"
| "times_number a NaN = NaN"
| "times_number (Finite a) (Finite b) = round_double (a * b)"
| "times_number a b =
     (if sign_number a * sign_number b = 0 then NaN
      else if 0 < sign_number a * sign_number b then Infinity
      else NegInfinity)"

text \<open>\<^verbatim>\<open>a <= b\<close>: false as soon as one side is \<^verbatim>\<open>NaN\<close>.\<close>

fun le_number :: "number \<Rightarrow> number \<Rightarrow> bool" where
  "le_number NaN b = False"
| "le_number a NaN = False"
| "le_number (Finite a) (Finite b) = (a \<le> b)"
| "le_number NegInfinity b = True"
| "le_number a Infinity = True"
| "le_number a b = False"

text \<open>\<^verbatim>\<open>Math.min(a, b)\<close>: \<^verbatim>\<open>NaN\<close> as soon as one argument is \<^verbatim>\<open>NaN\<close>.\<close>

fun Math_min :: "number \<Rightarrow> number \<Rightarrow> number" where
  "Math_min NaN b = NaN"
| "Math_min a NaN = NaN"
| "Math_min (Finite a) (Finite b) = Finite (min a b)"
| "Math_min NegInfinity b = NegInfinity"
| "Math_min a NegInfinity = NegInfinity"
| "Math_min Infinity b = b"
| "Math_min a Infinity = a"

text \<open>\<^verbatim>\<open>undefined\<close> as an argument of \<^verbatim>\<open>Math.min\<close> is \<^verbatim>\<open>NaN\<close>.\<close>

fun ToNumber :: "number option \<Rightarrow> number" where
  "ToNumber None = NaN"
| "ToNumber (Some n) = n"

subsection \<open>The session\<close>

text \<open>\<^verbatim>\<open>baseReq.url.match(/^\//)\<close>: the match array, or \<open>None\<close> for \<^verbatim>\<open>null\<close>.\<close>

fun url_match :: "string \<Rightarrow> string list option" where
  "url_match [] = None"
| "url_match (c # cs) = (if c = CHR ''/'' then Some [''/''] else None)"

text \<open>\<^verbatim>\<open>req.headers.get(name)\<close>.\<close>

definition headers_get :: "IncomingHttpRequest \<Rightarrow> string \<Rightarrow> string option" where
  "headers_get req name = map_of (headers req) name"

text \<open>
  Modelled from the spec: \<^verbatim>\<open>createResponder\<close> of \<^verbatim>\<open>responder.ts\<close> is missing.
  \<^verbatim>\<open>req.respondedStatus()\<close> is the status of the response the handler submitted
  (\<^verbatim>\<open>undefined\<close> when it submitted none).
\<close>

definition respondedStatus :: "ServerResponse option \<Rightarrow> int option" where
  "respondedStatus submitted = map_option status submitted"

text \<open>
  \<^verbatim>\<open>let responded = Promise.resolve()\<close>, replaced by \<^verbatim>\<open>q.enqueue(resp)\<close> when the
  handler submits a response: what \<^verbatim>\<open>await responded\<close> waits for.
\<close>

definition responded :: "cycle \<Rightarrow> ServerResponse option \<Rightarrow> unit outcome" where
  "responded c submitted = (case submitted of None \<Rightarrow> Resolved () | Some resp \<Rightarrow> write_result c)"

text \<open>
  The tail of \<^verbatim>\<open>processRequest\<close>, lines 240 to 261: the decision taken once the response
  is flushed and the body closed.
\<close>

definition decide :: "ServeOptions \<Rightarrow> ServeOptions \<Rightarrow> IncomingHttpRequest \<Rightarrow>
    ServerResponse option \<Rightarrow> ServeOptions option outcome" where
  "decide originalOpts opts req submitted =
     (if respondedStatus submitted = Some 101 then Resolved None
      else if (case keepAlive req of None \<Rightarrow> False | Some ka \<Rightarrow> le_number (max_ka ka) (Finite 0))
        then Rejected ''keep-alive ended''
      else if headers_get req ''connection'' = Some ''close''
        then Rejected ''connection closed header''
      else Resolved (Some \<lparr>
        cancel = cancel opts,
        keepAliveTimeout =
          (case keepAlive req of
             None \<Rightarrow> keepAliveTimeout originalOpts
           | Some ka \<Rightarrow> Some (Math_min (ToNumber (keepAliveTimeout originalOpts))
                                      (times_number (timeout ka) (Finite 1000)))),
        readTimeout = readTimeout opts \<rparr>))"

text \<open>
  \<^verbatim>\<open>processRequest(opts)\<close>: the effects of one cycle and how its promise ends.
  \<open>originalOpts\<close> is the variable of the enclosing \<^verbatim>\<open>handleKeepAliveConn\<close>.
\<close>

definition processRequest :: "ServeOptions \<Rightarrow> ServeOptions \<Rightarrow> cycle \<Rightarrow>
    event list \<times> ServeOptions option outcome" where
  "processRequest originalOpts opts c =
     (case read_result c of
        Pending \<Rightarrow> ([ReadRequest opts], Pending)
      | Rejected e \<Rightarrow> ([ReadRequest opts], Rejected e)
      | Resolved baseReq \<Rightarrow>
          (case url_match (url baseReq) of
             None \<Rightarrow> ([ReadRequest opts], Rejected ''malformed url'')
           | Some m \<Rightarrow>
               (case handler_result c of
                  Pending \<Rightarrow> ([ReadRequest opts, HandlerCalled (url baseReq)], Pending)
                | Rejected e \<Rightarrow> ([ReadRequest opts, HandlerCalled (url baseReq)], Rejected e)
                | Resolved submitted \<Rightarrow>
                    (case responded c submitted of
                       Pending \<Rightarrow>
                         ([ReadRequest opts, HandlerCalled (url baseReq), HandlerReturned], Pending)
                     | Rejected e \<Rightarrow>
                         ([ReadRequest opts, HandlerCalled (url baseReq), HandlerReturned],
                          Rejected e)
                     | Resolved _ \<Rightarrow>
                         (case close_result c of
                            Pending \<Rightarrow>
                              ([ReadRequest opts, HandlerCalled (url baseReq), HandlerReturned,
                                ResponseFlushed submitted], Pending)
                          | Rejected e \<Rightarrow>
                              ([ReadRequest opts, HandlerCalled (url baseReq), HandlerReturned,
                                ResponseFlushed submitted], Rejected e)
                          | Resolved _ \<Rightarrow>
                              ([ReadRequest opts, HandlerCalled (url baseReq), HandlerReturned,
                                ResponseFlushed submitted, BodyClosed],
                               decide originalOpts opts baseReq submitted))))))"

text \<open>
  \<^verbatim>\<open>scheduleReadRequest(opts)\<close> on the cycles still to come. When the promise of
  \<^verbatim>\<open>processRequest\<close> resolves with options the next cycle starts with them; when it
  resolves with \<^verbatim>\<open>undefined\<close> nothing more happens; when it rejects, \<^verbatim>\<open>conn.close()\<close>.
  When no cycle is left the peer sends nothing more and the read stays pending.
\<close>

fun scheduleReadRequest :: "ServeOptions \<Rightarrow> ServeOptions \<Rightarrow> cycle list \<Rightarrow> event list" where
  "scheduleReadRequest originalOpts opts [] = [ReadRequest opts]"
| "scheduleReadRequest originalOpts opts (c # cs) =
     (case processRequest originalOpts opts c of
        (evs, Resolved (Some v)) \<Rightarrow> evs @ scheduleReadRequest originalOpts v cs
      | (evs, Resolved None) \<Rightarrow> evs
      | (evs, Rejected e) \<Rightarrow> evs @ [ConnClose]
      | (evs, Pending) \<Rightarrow> evs)"

text \<open>\<^verbatim>\<open>handleKeepAliveConn(conn, handler, opts)\<close>: the effects on \<open>conn\<close>.\<close>

definition handleKeepAliveConn :: "ServeOptions \<Rightarrow> cycle list \<Rightarrow> event list" where
  "handleKeepAliveConn opts cs =
     scheduleReadRequest opts
       \<lparr> cancel = cancel opts, keepAliveTimeout = readTimeout opts, readTimeout = readTimeout opts \<rparr>
       cs"

text \<open>The events that are reads, to count the reads of a session.\<close>

fun is_read :: "event \<Rightarrow> bool" where
  "is_read (ReadRequest _) = True"
| "is_read _ = False"

subsection \<open>The supervisor\<close>

text \<open>An accepted connection.\<close>

type_synonym conn = nat

text \<open>
  The variables of one call of \<^verbatim>\<open>listenInternal\<close> and what it has done so far:
  \<^item> \<open>sup_opts\<close>: its parameter \<^verbatim>\<open>opts\<close>;
  \<^item> \<open>closed\<close>: its variable \<^verbatim>\<open>closed\<close>;
  \<^item> \<open>resolves\<close>: the calls of \<^verbatim>\<open>d.resolve()\<close>;
  \<^item> \<open>listener_closes\<close>: the calls of \<^verbatim>\<open>listener.close()\<close>;
  \<^item> \<open>accepts\<close>: the calls of \<^verbatim>\<open>listener.accept()\<close>;
  \<^item> \<open>pending\<close>: the promise of the last \<^verbatim>\<open>throwIfCancelled(listener.accept())\<close> is not
    settled yet;
  \<^item> \<open>external\<close>: the caller's promise \<^verbatim>\<open>opts.cancel\<close> has resolved;
  \<^item> \<open>sessions\<close>: the calls of \<^verbatim>\<open>handleKeepAliveConn(conn, handler, opts)\<close>.
\<close>

record supervisor =
  sup_opts :: ServeOptions
  closed :: bool
  resolves :: nat
  listener_closes :: nat
  accepts :: nat
  pending :: bool
  external :: bool
  sessions :: "(conn \<times> ServeOptions) list"

text \<open>
  What happens to a supervisor: the caller calls \<^verbatim>\<open>close()\<close> on the returned handle, the
  caller's \<^verbatim>\<open>opts.cancel\<close> resolves, the pending accept resolves with a connection, the
  pending accept rejects.
\<close>

datatype sup_event = CallClose | CancelResolved | AcceptResolved conn | AcceptRejected

text \<open>
  \<^verbatim>\<open>cancel\<close> is \<^verbatim>\<open>Promise.race([opts.cancel, d])\<close> when \<^verbatim>\<open>opts.cancel\<close> is given, and
  \<^verbatim>\<open>d\<close> otherwise: whether it has resolved.
\<close>

definition cancelled :: "supervisor \<Rightarrow> bool" where
  "cancelled s = (0 < resolves s \<or> (cancel (sup_opts s) \<noteq> None \<and> external s))"

text \<open>The closure \<^verbatim>\<open>close\<close> of \<^verbatim>\<open>listenInternal\<close>.\<close>

definition close :: "supervisor \<Rightarrow> supervisor" where
  "close s =
     (if \<not> closed s
      then s\<lparr> resolves := resolves s + 1, listener_closes := listener_closes s + 1,
              closed := True \<rparr>
      else s)"

text \<open>The closure \<^verbatim>\<open>acceptRoutine\<close>, up to the call of \<^verbatim>\<open>listener.accept()\<close>.\<close>

definition acceptRoutine :: "supervisor \<Rightarrow> supervisor" where
  "acceptRoutine s = (if closed s then s else s\<lparr> accepts := accepts s + 1, pending := True \<rparr>)"

text \<open>The options \<^verbatim>\<open>{}\<close>.\<close>

definition no_options :: ServeOptions where
  "no_options = \<lparr> cancel = None, keepAliveTimeout = None, readTimeout = None \<rparr>"

text \<open>
  \<^verbatim>\<open>listenInternal(listener, handler, opts = {})\<close>: the supervisor when the call returns,
  after the first \<^verbatim>\<open>acceptRoutine()\<close>.
\<close>

definition listenInternal :: "ServeOptions option \<Rightarrow> supervisor" where
  "listenInternal opts =
     acceptRoutine \<lparr>
       sup_opts = (case opts of None \<Rightarrow> no_options | Some v \<Rightarrow> v),
       closed = False, resolves = 0, listener_closes = 0, accepts = 0, pending = False,
       external = False, sessions = [] \<rparr>"

text \<open>
  Modelled from the spec: \<^verbatim>\<open>promiseInterrupter\<close> of \<^verbatim>\<open>promises.ts\<close> is missing. A wait
  composed with the cancellation signal is abandoned when the signal resolves and ends as
  cancelled: the promise of \<^verbatim>\<open>throwIfCancelled(listener.accept())\<close> can resolve with a
  connection only while \<^verbatim>\<open>cancel\<close> has not resolved; it can reject at any time.
\<close>

definition throwIfCancelled_can_resolve :: "supervisor \<Rightarrow> bool" where
  "throwIfCancelled_can_resolve s = (\<not> cancelled s)"

text \<open>
  One event. \<open>None\<close>: the event cannot happen in this state. The callback of
  \<^verbatim>\<open>then\<close> hands the connection to \<^verbatim>\<open>handleKeepAliveConn\<close> with the supervisor's
  \<^verbatim>\<open>opts\<close> and calls \<^verbatim>\<open>acceptRoutine()\<close>; the callback of \<^verbatim>\<open>catch\<close> is \<^verbatim>\<open>close\<close>.
\<close>

fun sup_step :: "supervisor \<Rightarrow> sup_event \<Rightarrow> supervisor option" where
  "sup_step s CallClose = Some (close s)"
| "sup_step s CancelResolved =
     (if cancel (sup_opts s) \<noteq> None \<and> \<not> external s then Some (s\<lparr> external := True \<rparr>)
      else None)"
| "sup_step s (AcceptResolved c) =
     (if pending s \<and> throwIfCancelled_can_resolve s
      then Some (acceptRoutine (s\<lparr> pending := False, sessions := sessions s @ [(c, sup_opts s)] \<rparr>))
      else None)"
| "sup_step s AcceptRejected =
     (if pending s then Some (close (s\<lparr> pending := False \<rparr>)) else None)"

text \<open>The events of a list, one after the other.\<close>

fun sup_run :: "supervisor \<Rightarrow> sup_event list \<Rightarrow> supervisor option" where
  "sup_run s [] = Some s"
| "sup_run s (e # es) = (case sup_step s e of None \<Rightarrow> None | Some s' \<Rightarrow> sup_run s' es)"

subsection \<open>The entry points\<close>

text \<open>
  Modelled from the spec: \<^verbatim>\<open>initServeOptions\<close> of \<^verbatim>\<open>serveio.ts\<close> is missing. It fills in
  the defaults, \<^verbatim>\<open>keepAliveTimeoutMillis = 75000\<close> and \<^verbatim>\<open>readTimeoutMillis = 75000\<close>, for
  the timeouts the caller left out.
\<close>

definition initServeOptions :: "ServeOptions \<Rightarrow> ServeOptions" where
  "initServeOptions opts =
     \<lparr> cancel = cancel opts,
       keepAliveTimeout =
         Some (case keepAliveTimeout opts of None \<Rightarrow> Finite 75000 | Some n \<Rightarrow> n),
       readTimeout = Some (case readTimeout opts of None \<Rightarrow> Finite 75000 | Some n \<Rightarrow> n) \<rparr>"

text \<open>
  \<^verbatim>\<open>listenAndServe(listenOptions, handler, opts = {})\<close> and
  \<^verbatim>\<open>listenAndServeTls(listenOptions, handler, opts?)\<close>: the supervisor each one returns.
  \<open>None\<close> is the argument \<^verbatim>\<open>opts\<close> left out. The listener, which is all that
  \<^verbatim>\<open>listenOptions\<close> decides, stays outside; the handler is in the cycles of a session.
\<close>

definition listenAndServe :: "ServeOptions option \<Rightarrow> supervisor" where
  "listenAndServe opts =
     listenInternal (Some (initServeOptions (case opts of None \<Rightarrow> no_options | Some v \<Rightarrow> v)))"

definition listenAndServeTls :: "ServeOptions option \<Rightarrow> supervisor" where
  "listenAndServeTls opts = listenInternal opts"

subsection \<open>The response dispatch queue\<close>

text \<open>
  Modelled from the spec: \<^verbatim>\<open>promiseWaitQueue\<close> of \<^verbatim>\<open>util.ts\<close> is missing. It is a
  per-connection FIFO of asynchronous write jobs, \<^verbatim>\<open>enqueue(response)\<close> returning the
  completion signal of the job; a single serialized worker drains the queued jobs one at a
  time; \<^verbatim>\<open>enqueue\<close> never blocks the caller; a job that fails does not drop or skip the
  jobs after it.

  \<open>queue\<close> holds the jobs not completed yet, the first one being written; \<open>wire\<close> is what
  has happened on the connection: \<open>WriteBegin t\<close> when the job's function (in the session,
  \<^verbatim>\<open>writeResponse(bufWriter, resp)\<close>) is called on \<open>t\<close>, \<open>WriteEnd t ok\<close> when its promise
  settles.
\<close>

datatype 'a wire_event = WriteBegin 'a | WriteEnd 'a bool

record 'a wait_queue =
  queue :: "'a list"
  wire :: "'a wire_event list"

datatype 'a queue_input = Enqueue 'a | Settle bool

text \<open>Modelled from the spec: the queue that \<^verbatim>\<open>promiseWaitQueue(creator)\<close> returns.\<close>

definition promiseWaitQueue :: "'a wait_queue" where
  "promiseWaitQueue = \<lparr> queue = [], wire = [] \<rparr>"

text \<open>
  Modelled from the spec: the single worker takes up the first job of the queue, when
  there is one.
\<close>

definition dequeue :: "'a wait_queue \<Rightarrow> 'a wait_queue" where
  "dequeue q = (case queue q of [] \<Rightarrow> q | t # ts \<Rightarrow> q\<lparr> wire := wire q @ [WriteBegin t] \<rparr>)"

text \<open>
  Modelled from the spec: \<^verbatim>\<open>enqueue(t)\<close> never blocks the caller; the job joins the end
  of the queue, and the worker starts on it when it was idle.
\<close>

definition enqueue :: "'a \<Rightarrow> 'a wait_queue \<Rightarrow> 'a wait_queue" where
  "enqueue t q =
     (if queue q = [] then dequeue (q\<lparr> queue := [t] \<rparr>) else q\<lparr> queue := queue q @ [t] \<rparr>)"

text \<open>
  Modelled from the spec: the write in progress settles (\<open>ok\<close>: it resolved, otherwise
  it failed); the job leaves the queue and the worker goes on with the next, also after a
  failure. \<open>None\<close>: no write is in progress.
\<close>

definition settle :: "bool \<Rightarrow> 'a wait_queue \<Rightarrow> 'a wait_queue option" where
  "settle ok q =
     (case queue q of
        [] \<Rightarrow> None
      | t # ts \<Rightarrow> Some (dequeue (q\<lparr> queue := ts, wire := wire q @ [WriteEnd t ok] \<rparr>)))"

text \<open>One input of a queue, and the inputs of a list one after the other.\<close>

fun queue_step :: "'a wait_queue \<Rightarrow> 'a queue_input \<Rightarrow> 'a wait_queue option" where
  "queue_step q (Enqueue t) = Some (enqueue t q)"
| "queue_step q (Settle ok) = settle ok q"

fun queue_run :: "'a wait_queue \<Rightarrow> 'a queue_input list \<Rightarrow> 'a wait_queue option" where
  "queue_run q [] = Some q"
| "queue_run q (i # ins) = (case queue_step q i of None \<Rightarrow> None | Some q' \<Rightarrow> queue_run q' ins)"

text \<open>The jobs submitted by a list of inputs, in the order of submission.\<close>

fun enqueued :: "'a queue_input list \<Rightarrow> 'a list" where
  "enqueued [] = []"
| "enqueued (Enqueue t # ins) = t # enqueued ins"
| "enqueued (Settle ok # ins) = enqueued ins"

text \<open>The jobs whose write has begun, in the order the writes began.\<close>

fun begun :: "'a wire_event list \<Rightarrow> 'a list" where
  "begun [] = []"
| "begun (WriteBegin t # w) = t # begun w"
| "begun (WriteEnd t ok # w) = begun w"

text \<open>
  No two writes overlap: each write that begins ends before the next one begins, the last
  one possibly still in progress.
\<close>

fun serialized :: "'a wire_event list \<Rightarrow> bool" where
  "serialized [] = True"
| "serialized [WriteBegin t] = True"
| "serialized (WriteBegin t # WriteEnd t' ok # w) = (t = t' \<and> serialized w)"
| "serialized _ = False"

subsection \<open>Invariants and example inputs\<close>


text \<open>
  The shape of the wire of a queue: the completed jobs with their outcomes, each written
  from its beginning to its end, then the beginning of the job in progress.
\<close>

fun written :: "('a \<times> bool) list \<Rightarrow> 'a wire_event list" where
  "written [] = []"
| "written ((t, ok) # ds) = WriteBegin t # WriteEnd t ok # written ds"

definition in_progress :: "'a list \<Rightarrow> 'a wire_event list" where
  "in_progress ts = (case ts of [] \<Rightarrow> [] | t # _ \<Rightarrow> [WriteBegin t])"

definition queue_inv :: "'a wait_queue \<Rightarrow> 'a list \<Rightarrow> bool" where
  "queue_inv q enq =
     (\<exists>ds. map fst ds @ queue q = enq \<and> wire q = written ds @ in_progress (queue q))"

text \<open>Options and cycles on which the theorems below are run.\<close>

abbreviation example_opts :: ServeOptions where
  "example_opts \<equiv>
     \<lparr> cancel = None, keepAliveTimeout = Some (Finite 75000), readTimeout = Some (Finite 1000) \<rparr>"

abbreviation example_first :: ServeOptions where
  "example_first \<equiv>
     \<lparr> cancel = None, keepAliveTimeout = Some (Finite 1000), readTimeout = Some (Finite 1000) \<rparr>"

abbreviation example_cycle ::
    "string \<Rightarrow> (string \<times> string) list \<Rightarrow> KeepAlive option \<Rightarrow> int \<Rightarrow> cycle" where
  "example_cycle u hs ka st \<equiv>
     \<lparr> read_result = Resolved \<lparr> url = u, headers = hs, keepAlive = ka \<rparr>,
       handler_result = Resolved (Some \<lparr> status = st \<rparr>),
       write_result = Resolved (), close_result = Resolved () \<rparr>"

section \<open>Numbers\<close>

declare bit_length.simps [simp del]

text \<open>Up to \<open>2 ^ 53\<close> in absolute value nothing is rounded.\<close>

lemma round_double_exact: "\<bar>r\<bar> \<le> 2 ^ 53 \<Longrightarrow> round_double r = Finite r"
  by (simp add: round_double_def)

section \<open>The session: one cycle after the other\<close>

text \<open>The URL matches exactly when it begins with a slash.\<close>

lemma url_match_None_iff: "url_match u = None \<longleftrightarrow> take 1 u \<noteq> ''/''"
  by (cases u) auto

lemma url_match_Some: "take 1 u = ''/'' \<Longrightarrow> url_match u = Some [''/'']"
  by (cases u) auto

text \<open>
  A cycle begins with its read, reads nothing else and does not close the connection
  itself; a cycle after which the session goes on is a complete one.
\<close>

lemma processRequest_head:
  "\<exists>evs. fst (processRequest orig opts c) = ReadRequest opts # evs \<and>
     (\<forall>o'. ReadRequest o' \<notin> set evs) \<and> ConnClose \<notin> set evs"
  by (simp add: processRequest_def split: outcome.splits option.splits)

lemma processRequest_continues:
  "processRequest orig opts c = (evs, Resolved (Some v)) \<Longrightarrow>
   \<exists>req sub. read_result c = Resolved req \<and> handler_result c = Resolved sub \<and>
     (sub = None \<or> write_result c = Resolved ()) \<and> close_result c = Resolved () \<and>
     evs = [ReadRequest opts, HandlerCalled (url req), HandlerReturned,
            ResponseFlushed sub, BodyClosed] \<and>
     decide orig opts req sub = Resolved (Some v)"
  by (auto simp add: processRequest_def responded_def split: outcome.splits option.splits)

lemma scheduleReadRequest_head:
  "\<exists>rest. scheduleReadRequest orig opts cs = ReadRequest opts # rest"
proof (cases cs)
  case Nil
  then show ?thesis by simp
next
  case (Cons c cs')
  obtain evs where "fst (processRequest orig opts c) = ReadRequest opts # evs"
    using processRequest_head by blast
  then show ?thesis using Cons
    by (cases "processRequest orig opts c") (auto split: outcome.splits option.splits)
qed

text \<open>In a list of effects with a single read at its head, nothing comes before a read.\<close>

lemma only_first_read:
  assumes "\<forall>o'. ReadRequest o' \<notin> set w"
    and "ReadRequest opts # w = pre @ ReadRequest o' # post"
  shows "pre = []"
proof (cases pre)
  case Nil
  then show ?thesis .
next
  case (Cons x xs)
  then have "w = xs @ ReadRequest o' # post" using assms(2) by simp
  then have "ReadRequest o' \<in> set w" by simp
  then show ?thesis using assms(1) by blast
qed

text \<open>
  Wherever a read stands in the effects of \<^verbatim>\<open>scheduleReadRequest\<close>, it is the first
  effect or a complete cycle ends right before it. Induction on the cycles to come, the
  options and the prefix generalised.
\<close>

lemma scheduleReadRequest_read_after_cycle:
  "scheduleReadRequest orig opts cs = pre @ ReadRequest o' # post \<Longrightarrow>
   pre = [] \<or>
   (\<exists>pre' o0 u r. pre = pre' @ [ReadRequest o0, HandlerCalled u, HandlerReturned,
                                  ResponseFlushed r, BodyClosed])"
proof (induction cs arbitrary: opts pre)
  case Nil
  then show ?case by (auto simp: Cons_eq_append_conv)
next
  case (Cons c cs)
  obtain evs res where pr: "processRequest orig opts c = (evs, res)"
    by (cases "processRequest orig opts c")
  obtain evs' where evs: "evs = ReadRequest opts # evs'"
    and nr: "\<forall>o'. ReadRequest o' \<notin> set evs'"
    using processRequest_head [of orig opts c] pr by auto
  show ?case
  proof (cases "\<exists>v. res = Resolved (Some v)")
    case True
    then obtain v where res: "res = Resolved (Some v)" by blast
    obtain u sub where cyc: "evs = [ReadRequest opts, HandlerCalled u, HandlerReturned,
                                    ResponseFlushed sub, BodyClosed]"
      using processRequest_continues [of orig opts c evs v] pr res by auto
    let ?T = "scheduleReadRequest orig v cs"
    have tr: "evs @ ?T = pre @ ReadRequest o' # post"
      using Cons.prems pr res by simp
    then obtain us where us: "(evs = pre @ us \<and> us @ ?T = ReadRequest o' # post) \<or>
        (evs @ us = pre \<and> ?T = us @ ReadRequest o' # post)"
      by (auto simp: append_eq_append_conv2)
    then show ?thesis
    proof
      assume a: "evs = pre @ us \<and> us @ ?T = ReadRequest o' # post"
      show ?thesis
      proof (cases us)
        case Nil
        then show ?thesis using a cyc by auto
      next
        case (Cons x xs)
        then have "x = ReadRequest o'" using a by simp
        then show ?thesis using a cyc Cons by (auto simp: Cons_eq_append_conv)
      qed
    next
      assume b: "evs @ us = pre \<and> ?T = us @ ReadRequest o' # post"
      then have "us = [] \<or>
          (\<exists>pre' o0 u r. us = pre' @ [ReadRequest o0, HandlerCalled u, HandlerReturned,
                                        ResponseFlushed r, BodyClosed])"
        using Cons.IH by blast
      then show ?thesis
      proof
        assume "us = []"
        then show ?thesis using b cyc by auto
      next
        assume "\<exists>pre' o0 u r. us = pre' @ [ReadRequest o0, HandlerCalled u, HandlerReturned,
                                            ResponseFlushed r, BodyClosed]"
        then obtain pre' o0 u r where
          "us = pre' @ [ReadRequest o0, HandlerCalled u, HandlerReturned,
                        ResponseFlushed r, BodyClosed]"
          by blast
        then have "pre = (evs @ pre') @ [ReadRequest o0, HandlerCalled u, HandlerReturned,
                                         ResponseFlushed r, BodyClosed]"
          using b by simp
        then show ?thesis by blast
      qed
    qed
  next
    case False
    then have "scheduleReadRequest orig opts (c # cs) = evs \<or>
               scheduleReadRequest orig opts (c # cs) = evs @ [ConnClose]"
      using pr by (auto split: outcome.splits option.splits)
    then have "ReadRequest opts # evs' = pre @ ReadRequest o' # post \<or>
               ReadRequest opts # (evs' @ [ConnClose]) = pre @ ReadRequest o' # post"
      using Cons.prems evs by auto
    then have "pre = []"
    proof
      assume "ReadRequest opts # evs' = pre @ ReadRequest o' # post"
      then show ?thesis using nr only_first_read by blast
    next
      assume h: "ReadRequest opts # (evs' @ [ConnClose]) = pre @ ReadRequest o' # post"
      have "\<forall>o'. ReadRequest o' \<notin> set (evs' @ [ConnClose])" using nr by simp
      then show ?thesis using h only_first_read by blast
    qed
    then show ?thesis by simp
  qed
qed

text \<open>A cycle in which nothing fails, up to its decision.\<close>

lemma processRequest_complete:
  assumes "read_result c = Resolved req" and "take 1 (url req) = ''/''"
    and "handler_result c = Resolved sub" and "responded c sub = Resolved ()"
    and "close_result c = Resolved ()"
  shows "processRequest orig opts c =
    ([ReadRequest opts, HandlerCalled (url req), HandlerReturned, ResponseFlushed sub,
      BodyClosed],
     decide orig opts req sub)"
  using assms by (simp add: processRequest_def url_match_Some)

lemma filter_is_read_none:
  "\<forall>o'. ReadRequest o' \<notin> set evs \<Longrightarrow> filter is_read evs = []"
proof (induction evs)
  case Nil
  then show ?case by simp
next
  case (Cons e evs)
  then show ?case by (cases e) auto
qed

text \<open>
  As many reads as a session issues, so many cycles before the last read are complete:
  when the session issues a read after the one of cycle \<open>i\<close>, that cycle's request was
  read, its handler has returned, the write of its submitted response has resolved and the
  close of its body has resolved. Induction on the cycles, the options and the index
  generalised.
\<close>

lemma reads_imply_complete:
  "Suc (Suc i) \<le> length (filter is_read (scheduleReadRequest orig opts cs)) \<Longrightarrow>
   i < length cs \<and>
   (\<exists>req sub. read_result (cs ! i) = Resolved req \<and> handler_result (cs ! i) = Resolved sub \<and>
      (sub = None \<or> write_result (cs ! i) = Resolved ()) \<and>
      close_result (cs ! i) = Resolved ())"
proof (induction cs arbitrary: opts i)
  case Nil
  then show ?case by simp
next
  case (Cons c cs)
  obtain evs res where pr: "processRequest orig opts c = (evs, res)"
    by (cases "processRequest orig opts c")
  obtain evs' where evs: "evs = ReadRequest opts # evs'"
    and nr: "\<forall>o'. ReadRequest o' \<notin> set evs'"
    using processRequest_head [of orig opts c] pr by auto
  have one: "filter is_read evs = [ReadRequest opts]"
    using evs nr by (simp add: filter_is_read_none)
  show ?case
  proof (cases "\<exists>v. res = Resolved (Some v)")
    case True
    then obtain v where res: "res = Resolved (Some v)" by blast
    have complete: "\<exists>req sub. read_result c = Resolved req \<and> handler_result c = Resolved sub \<and>
        (sub = None \<or> write_result c = Resolved ()) \<and> close_result c = Resolved ()"
      using processRequest_continues [of orig opts c evs v] pr res by blast
    have tr: "scheduleReadRequest orig opts (c # cs) = evs @ scheduleReadRequest orig v cs"
      using pr res by simp
    show ?thesis
    proof (cases i)
      case 0
      then show ?thesis using complete by simp
    next
      case (Suc j)
      have "Suc (Suc j) \<le> length (filter is_read (scheduleReadRequest orig v cs))"
        using Cons.prems tr one Suc by simp
      then have "j < length cs \<and>
        (\<exists>req sub. read_result (cs ! j) = Resolved req \<and> handler_result (cs ! j) = Resolved sub \<and>
           (sub = None \<or> write_result (cs ! j) = Resolved ()) \<and>
           close_result (cs ! j) = Resolved ())"
        by (rule Cons.IH)
      then show ?thesis using Suc by simp
    qed
  next
    case False
    then have "scheduleReadRequest orig opts (c # cs) = evs \<or>
               scheduleReadRequest orig opts (c # cs) = evs @ [ConnClose]"
      using pr by (auto split: outcome.splits option.splits)
    then have "length (filter is_read (scheduleReadRequest orig opts (c # cs))) = 1"
      using one by auto
    then show ?thesis using Cons.prems by simp
  qed
qed

text \<open>
  With \<^verbatim>\<open>connection: close\<close> and no 101 a cycle never ends with the session going on or
  stopping silently; when its waits all come to an end it rejects.
\<close>

lemma processRequest_close_header_not_resolved:
  assumes "read_result c = Resolved req" and "headers_get req ''connection'' = Some ''close''"
    and "\<forall>resp. handler_result c = Resolved (Some resp) \<longrightarrow> status resp \<noteq> 101"
  shows "snd (processRequest orig opts c) \<noteq> Resolved v"
  using assms
  by (auto simp add: processRequest_def decide_def respondedStatus_def
        split: outcome.splits option.splits)

lemma processRequest_close_header:
  assumes "read_result c = Resolved req" and "headers_get req ''connection'' = Some ''close''"
    and "\<forall>resp. handler_result c = Resolved (Some resp) \<longrightarrow> status resp \<noteq> 101"
    and "handler_result c \<noteq> Pending"
    and "\<forall>resp. handler_result c = Resolved (Some resp) \<longrightarrow> write_result c \<noteq> Pending"
    and "close_result c \<noteq> Pending"
  shows "\<exists>e. snd (processRequest orig opts c) = Rejected e"
  using assms
  by (auto simp add: processRequest_def decide_def respondedStatus_def responded_def
        split: outcome.splits option.splits)

text \<open>
  A cycle waits for the write of the submitted response: while the write is pending the
  cycle is pending, and the response counts as flushed only when its write has resolved.
\<close>

lemma processRequest_write_pending:
  assumes "read_result c = Resolved req" and "take 1 (url req) = ''/''"
    and "handler_result c = Resolved (Some resp)" and "write_result c = Pending"
  shows "processRequest orig opts c =
    ([ReadRequest opts, HandlerCalled (url req), HandlerReturned], Pending)"
  using assms by (simp add: processRequest_def url_match_Some responded_def)

lemma processRequest_flushed:
  "ResponseFlushed (Some resp) \<in> set (fst (processRequest orig opts c)) \<Longrightarrow>
   write_result c = Resolved ()"
  by (auto simp add: processRequest_def responded_def split: outcome.splits option.splits)

section \<open>The claims about the session\<close>

text \<open>
  Claim C7. On a fresh connection the first read is issued with the configured
  \<^verbatim>\<open>readTimeout\<close> in both places, as its read timeout and instead of the keep-alive timeout:
  whatever the cycles are, the first effect of \<^verbatim>\<open>handleKeepAliveConn\<close> is the call of
  \<^verbatim>\<open>readRequest\<close> with \<^verbatim>\<open>{keepAliveTimeout: opts.readTimeout, readTimeout: opts.readTimeout}\<close>.
\<close>

theorem first_read_uses_readTimeout:
  "take 1 (handleKeepAliveConn opts cs) =
     [ReadRequest \<lparr> cancel = cancel opts, keepAliveTimeout = readTimeout opts,
                    readTimeout = readTimeout opts \<rparr>]"
proof -
  obtain rest where "handleKeepAliveConn opts cs =
     ReadRequest \<lparr> cancel = cancel opts, keepAliveTimeout = readTimeout opts,
                    readTimeout = readTimeout opts \<rparr> # rest"
    unfolding handleKeepAliveConn_def using scheduleReadRequest_head by blast
  then show ?thesis by simp
qed


theorem first_read_uses_readTimeout_witness:
  "take 1 (handleKeepAliveConn example_opts [example_cycle ''/a'' [] None 200]) =
     [ReadRequest example_first]"
  using first_read_uses_readTimeout [where opts = example_opts
      and cs = "[example_cycle ''/a'' [] None 200]"]
  by simp

text \<open>
  Claim C2. A session starts the read of a next request only when the cycle of the current
  request is complete. In the effects of a session, every read is either the first effect
  or comes directly after the handler of the current request was called and has returned,
  the wait for its submitted response is over and the wait for the close of its body is
  over. And these waits are real: when the session issues a read after the one of cycle
  \<open>i\<close>, the handler of cycle \<open>i\<close> has returned, the write of the response it submitted
  has resolved, and the close of the request's body has resolved.
\<close>

theorem next_read_after_flush_and_drain:
  "(handleKeepAliveConn opts cs = pre @ ReadRequest o' # post \<longrightarrow>
      pre = [] \<or>
      (\<exists>pre' o0 u r. pre = pre' @ [ReadRequest o0, HandlerCalled u, HandlerReturned,
                                     ResponseFlushed r, BodyClosed])) \<and>
   (Suc (Suc i) \<le> length (filter is_read (handleKeepAliveConn opts cs)) \<longrightarrow>
      i < length cs \<and>
      (\<exists>req sub. read_result (cs ! i) = Resolved req \<and>
         handler_result (cs ! i) = Resolved sub \<and>
         (sub = None \<or> write_result (cs ! i) = Resolved ()) \<and>
         close_result (cs ! i) = Resolved ()))"
  unfolding handleKeepAliveConn_def
  using scheduleReadRequest_read_after_cycle reads_imply_complete by blast

theorem next_read_after_flush_and_drain_witness:
  "handleKeepAliveConn example_opts
     [example_cycle ''/a'' [] None 200,
      \<lparr> read_result = Resolved \<lparr> url = ''/b'', headers = [], keepAlive = None \<rparr>,
        handler_result = Resolved (Some \<lparr> status = 200 \<rparr>),
        write_result = Pending, close_result = Resolved () \<rparr>,
      example_cycle ''/c'' [] None 200] =
     [ReadRequest example_first, HandlerCalled ''/a'', HandlerReturned,
      ResponseFlushed (Some \<lparr> status = 200 \<rparr>), BodyClosed] @
     ReadRequest example_opts # [HandlerCalled ''/b'', HandlerReturned] \<and>
   (\<exists>pre' o0 u r.
      [ReadRequest example_first, HandlerCalled ''/a'', HandlerReturned,
       ResponseFlushed (Some \<lparr> status = 200 \<rparr>), BodyClosed] =
      pre' @ [ReadRequest o0, HandlerCalled u, HandlerReturned, ResponseFlushed r, BodyClosed]) \<and>
   write_result (example_cycle ''/a'' [] None 200) = Resolved () \<and>
   close_result (example_cycle ''/a'' [] None 200) = Resolved ()"
proof -
  let ?cs = "[example_cycle ''/a'' [] None 200,
      \<lparr> read_result = Resolved \<lparr> url = ''/b'', headers = [], keepAlive = None \<rparr>,
        handler_result = Resolved (Some \<lparr> status = 200 \<rparr>),
        write_result = Pending, close_result = Resolved () \<rparr>,
      example_cycle ''/c'' [] None 200]"
  have h: "handleKeepAliveConn example_opts ?cs =
     [ReadRequest example_first, HandlerCalled ''/a'', HandlerReturned,
      ResponseFlushed (Some \<lparr> status = 200 \<rparr>), BodyClosed] @
     ReadRequest example_opts # [HandlerCalled ''/b'', HandlerReturned]"
    by (simp add: handleKeepAliveConn_def processRequest_def responded_def decide_def
        respondedStatus_def headers_get_def)
  have n: "Suc (Suc 0) \<le> length (filter is_read (handleKeepAliveConn example_opts ?cs))"
    unfolding h by simp
  show ?thesis
    using h n next_read_after_flush_and_drain [where opts = example_opts and cs = ?cs
        and pre = "[ReadRequest example_first, HandlerCalled ''/a'', HandlerReturned,
          ResponseFlushed (Some \<lparr> status = 200 \<rparr>), BodyClosed]"
        and o' = example_opts and post = "[HandlerCalled ''/b'', HandlerReturned]" and i = 0]
    by simp
qed

text \<open>
  Claim C3, as the code has it. When a cycle ends with the session going on
  (\<^verbatim>\<open>processRequest\<close> resolves with options \<open>v\<close>), the next read is issued with \<open>v\<close>. When
  the session was started with a keep-alive timeout \<open>d\<close> and the request declared keep-alive,
  the keep-alive timeout of \<open>v\<close> is \<^verbatim>\<open>Math.min(d, timeout * 1000)\<close> in the arithmetic of
  doubles; for a configured integer \<open>D\<close> and a declared integer \<open>T\<close> with \<open>T * 1000\<close> at
  most \<open>2 ^ 53\<close> in absolute value this is the minimum of \<open>D\<close> and \<open>T * 1000\<close>. When the request
  declared no keep-alive, it is the keep-alive timeout the session was started with,
  unchanged.
\<close>

theorem next_keepAliveTimeout:
  assumes "processRequest orig opts c = (evs, Resolved (Some v))"
    and "read_result c = Resolved req"
  shows "(\<forall>d ka. keepAliveTimeout orig = Some d \<and> keepAlive req = Some ka \<longrightarrow>
            keepAliveTimeout v = Some (Math_min d (times_number (timeout ka) (Finite 1000)))) \<and>
         (\<forall>D T m. keepAliveTimeout orig = Some (Finite D) \<and>
            keepAlive req = Some \<lparr> timeout = Finite T, max_ka = m \<rparr> \<and>
            \<bar>T * 1000\<bar> \<le> 2 ^ 53 \<longrightarrow>
            keepAliveTimeout v = Some (Finite (min D (T * 1000)))) \<and>
         (keepAlive req = None \<longrightarrow> keepAliveTimeout v = keepAliveTimeout orig) \<and>
         (\<exists>rest. scheduleReadRequest orig opts (c # cs) = evs @ ReadRequest v # rest)"
proof -
  obtain sub where d: "decide orig opts req sub = Resolved (Some v)"
    using processRequest_continues [OF assms(1)] assms(2) by auto
  have g: "\<forall>d ka. keepAliveTimeout orig = Some d \<and> keepAlive req = Some ka \<longrightarrow>
            keepAliveTimeout v = Some (Math_min d (times_number (timeout ka) (Finite 1000)))"
    using d by (auto simp add: decide_def split: if_splits)
  have a: "\<forall>D T m. keepAliveTimeout orig = Some (Finite D) \<and>
            keepAlive req = Some \<lparr> timeout = Finite T, max_ka = m \<rparr> \<and>
            \<bar>T * 1000\<bar> \<le> 2 ^ 53 \<longrightarrow>
            keepAliveTimeout v = Some (Finite (min D (T * 1000)))"
    using g by (auto simp add: round_double_exact)
  have b: "keepAlive req = None \<longrightarrow> keepAliveTimeout v = keepAliveTimeout orig"
    using d by (auto simp add: decide_def split: if_splits)
  obtain rest where "scheduleReadRequest orig v cs = ReadRequest v # rest"
    using scheduleReadRequest_head by blast
  then have c: "\<exists>rest. scheduleReadRequest orig opts (c # cs) = evs @ ReadRequest v # rest"
    using assms(1) by simp
  show ?thesis using g a b c by blast
qed

theorem next_keepAliveTimeout_witness:
  "processRequest example_opts example_first
     (example_cycle ''/a'' [] (Some \<lparr> timeout = Finite 5, max_ka = Finite 100 \<rparr>) 200) =
     ([ReadRequest example_first, HandlerCalled ''/a'', HandlerReturned,
       ResponseFlushed (Some \<lparr> status = 200 \<rparr>), BodyClosed],
      Resolved (Some \<lparr> cancel = None, keepAliveTimeout = Some (Finite 5000),
                        readTimeout = Some (Finite 1000) \<rparr>)) \<and>
   \<bar>5 * 1000\<bar> \<le> (2::int) ^ 53 \<and>
   keepAliveTimeout \<lparr> cancel = None, keepAliveTimeout = Some (Finite 5000),
                      readTimeout = Some (Finite 1000) \<rparr> = Some (Finite (min 75000 (5 * 1000)))"
proof -
  have h: "processRequest example_opts example_first
     (example_cycle ''/a'' [] (Some \<lparr> timeout = Finite 5, max_ka = Finite 100 \<rparr>) 200) =
     ([ReadRequest example_first, HandlerCalled ''/a'', HandlerReturned,
       ResponseFlushed (Some \<lparr> status = 200 \<rparr>), BodyClosed],
      Resolved (Some \<lparr> cancel = None, keepAliveTimeout = Some (Finite 5000),
                        readTimeout = Some (Finite 1000) \<rparr>))"
    by (simp add: processRequest_def responded_def decide_def respondedStatus_def headers_get_def
        round_double_def)
  have r: "read_result (example_cycle ''/a'' []
             (Some \<lparr> timeout = Finite 5, max_ka = Finite 100 \<rparr>) 200) =
           Resolved \<lparr> url = ''/a'', headers = [],
             keepAlive = Some \<lparr> timeout = Finite 5, max_ka = Finite 100 \<rparr> \<rparr>"
    by simp
  show ?thesis using h next_keepAliveTimeout [OF h r, where cs = "[]"] by simp
qed

text \<open>
  Claim C3, as it is stated, fails where the product is rounded. A session started with
  the keep-alive timeout \<open>10 ^ 19\<close> reads a request that declares the keep-alive timeout
  \<open>2 ^ 53 - 1\<close>; both are doubles. The code computes the double nearest to the product,
  9007199254740990976, where the minimum of the claim is 9007199254740991000.
\<close>

theorem next_keepAliveTimeout_rounded:
  "round_double 10000000000000000000 = Finite 10000000000000000000 \<and>
   round_double 9007199254740991 = Finite 9007199254740991 \<and>
   processRequest
     \<lparr> cancel = None, keepAliveTimeout = Some (Finite 10000000000000000000),
       readTimeout = Some (Finite 75000) \<rparr>
     \<lparr> cancel = None, keepAliveTimeout = Some (Finite 75000),
       readTimeout = Some (Finite 75000) \<rparr>
     (example_cycle ''/a'' []
        (Some \<lparr> timeout = Finite 9007199254740991, max_ka = Finite 100 \<rparr>) 200) =
     ([ReadRequest \<lparr> cancel = None, keepAliveTimeout = Some (Finite 75000),
                     readTimeout = Some (Finite 75000) \<rparr>,
       HandlerCalled ''/a'', HandlerReturned, ResponseFlushed (Some \<lparr> status = 200 \<rparr>),
       BodyClosed],
      Resolved (Some \<lparr> cancel = None, keepAliveTimeout = Some (Finite 9007199254740990976),
                        readTimeout = Some (Finite 75000) \<rparr>)) \<and>
   (9007199254740990976::int) \<noteq> min 10000000000000000000 (9007199254740991 * 1000)"
proof -
  have big: "round_double 10000000000000000000 = Finite 10000000000000000000"
    by (simp add: round_double_def bit_length.simps Let_def)
  have p: "round_double (9007199254740991 * 1000) = Finite 9007199254740990976"
    by (simp add: round_double_def bit_length.simps Let_def)
  have c: "processRequest
     \<lparr> cancel = None, keepAliveTimeout = Some (Finite 10000000000000000000),
       readTimeout = Some (Finite 75000) \<rparr>
     \<lparr> cancel = None, keepAliveTimeout = Some (Finite 75000),
       readTimeout = Some (Finite 75000) \<rparr>
     (example_cycle ''/a'' []
        (Some \<lparr> timeout = Finite 9007199254740991, max_ka = Finite 100 \<rparr>) 200) =
     ([ReadRequest \<lparr> cancel = None, keepAliveTimeout = Some (Finite 75000),
                     readTimeout = Some (Finite 75000) \<rparr>,
       HandlerCalled ''/a'', HandlerReturned, ResponseFlushed (Some \<lparr> status = 200 \<rparr>),
       BodyClosed],
      Resolved (Some \<lparr> cancel = None,
        keepAliveTimeout = Some (Math_min (Finite 10000000000000000000)
                                   (round_double (9007199254740991 * 1000))),
        readTimeout = Some (Finite 75000) \<rparr>))"
    by (simp add: processRequest_def responded_def decide_def respondedStatus_def headers_get_def
        del: mult_numeral_left_semiring_numeral)
  show ?thesis
    unfolding c p using big by (simp add: round_double_exact)
qed

text \<open>
  Claim C4. When the handler's submitted response has status 101, the response is flushed
  and the body closed, then the session stops: \<^verbatim>\<open>processRequest\<close> resolves with
  \<^verbatim>\<open>undefined\<close>, no further request is read whatever cycles would follow, and
  \<^verbatim>\<open>conn.close()\<close> is not called.
\<close>

theorem upgrade_stops_without_close:
  assumes "read_result c = Resolved req" and "take 1 (url req) = ''/''"
    and "handler_result c = Resolved (Some resp)" and "status resp = 101"
    and "write_result c = Resolved ()" and "close_result c = Resolved ()"
  shows "processRequest orig opts c =
           ([ReadRequest opts, HandlerCalled (url req), HandlerReturned,
             ResponseFlushed (Some resp), BodyClosed], Resolved None) \<and>
         scheduleReadRequest orig opts (c # cs) =
           [ReadRequest opts, HandlerCalled (url req), HandlerReturned,
            ResponseFlushed (Some resp), BodyClosed] \<and>
         ConnClose \<notin> set (scheduleReadRequest orig opts (c # cs))"
proof -
  have r: "responded c (Some resp) = Resolved ()" using assms(5) by (simp add: responded_def)
  have d: "decide orig opts req (Some resp) = Resolved None"
    using assms(4) by (simp add: decide_def respondedStatus_def)
  have "processRequest orig opts c =
           ([ReadRequest opts, HandlerCalled (url req), HandlerReturned,
             ResponseFlushed (Some resp), BodyClosed], Resolved None)"
    using processRequest_complete [OF assms(1) assms(2) assms(3) r assms(6)] d by simp
  then show ?thesis by simp
qed


theorem upgrade_stops_without_close_witness:
  "scheduleReadRequest example_opts example_first
     (example_cycle ''/ws'' [] None 101 # [example_cycle ''/b'' [] None 200]) =
     [ReadRequest example_first, HandlerCalled ''/ws'', HandlerReturned,
      ResponseFlushed (Some \<lparr> status = 101 \<rparr>), BodyClosed]"
  using upgrade_stops_without_close [where c = "example_cycle ''/ws'' [] None 101"
      and req = "\<lparr> url = ''/ws'', headers = [], keepAlive = None \<rparr>"
      and resp = "\<lparr> status = 101 \<rparr>" and orig = example_opts and opts = example_first
      and cs = "[example_cycle ''/b'' [] None 200]"]
  by simp

text \<open>
  Claim C5. A request carries the header \<^verbatim>\<open>connection: close\<close> and its response is not a
  101. Then the read of this request is the last read of the session, whatever cycles
  would follow. When the handler, the write of the response and the close of the body each
  come to an end, the session calls \<^verbatim>\<open>conn.close()\<close> once, as its last effect. The close
  waits for the flush: while the write of the submitted response is pending,
  \<^verbatim>\<open>conn.close()\<close> is not called, and the response counts as flushed only when its write
  has resolved. When nothing failed the effects are the read, the handler, the flush of
  the response, the close of the body and then \<^verbatim>\<open>conn.close()\<close>.
\<close>

theorem connection_close_header_closes:
  assumes "read_result c = Resolved req" and "headers_get req ''connection'' = Some ''close''"
    and "\<forall>resp. handler_result c = Resolved (Some resp) \<longrightarrow> status resp \<noteq> 101"
  shows "filter is_read (scheduleReadRequest orig opts (c # cs)) = [ReadRequest opts] \<and>
         (handler_result c \<noteq> Pending \<and>
          (\<forall>resp. handler_result c = Resolved (Some resp) \<longrightarrow> write_result c \<noteq> Pending) \<and>
          close_result c \<noteq> Pending \<longrightarrow>
            last (scheduleReadRequest orig opts (c # cs)) = ConnClose \<and>
            count_list (scheduleReadRequest orig opts (c # cs)) ConnClose = 1) \<and>
         (take 1 (url req) = ''/'' \<and> handler_result c = Resolved (Some resp) \<and>
          write_result c = Pending \<longrightarrow>
            scheduleReadRequest orig opts (c # cs) =
              [ReadRequest opts, HandlerCalled (url req), HandlerReturned] \<and>
            ConnClose \<notin> set (scheduleReadRequest orig opts (c # cs))) \<and>
         (ResponseFlushed (Some resp) \<in> set (scheduleReadRequest orig opts (c # cs)) \<longrightarrow>
            write_result c = Resolved ()) \<and>
         (take 1 (url req) = ''/'' \<and> handler_result c = Resolved sub \<and>
          (sub = None \<or> write_result c = Resolved ()) \<and> close_result c = Resolved () \<longrightarrow>
            scheduleReadRequest orig opts (c # cs) =
              [ReadRequest opts, HandlerCalled (url req), HandlerReturned,
               ResponseFlushed sub, BodyClosed, ConnClose])"
proof -
  define T where "T = scheduleReadRequest orig opts (c # cs)"
  obtain evs where evs: "fst (processRequest orig opts c) = ReadRequest opts # evs"
    and nr: "\<forall>o'. ReadRequest o' \<notin> set evs" and nc: "ConnClose \<notin> set evs"
    using processRequest_head by blast
  have nres: "\<And>v. snd (processRequest orig opts c) \<noteq> Resolved v"
    using processRequest_close_header_not_resolved [OF assms] .
  have shape: "T = ReadRequest opts # evs \<or> T = ReadRequest opts # evs @ [ConnClose]"
  proof (cases "snd (processRequest orig opts c)")
    case (Resolved v)
    then show ?thesis using nres by blast
  next
    case (Rejected e)
    then have "processRequest orig opts c = (ReadRequest opts # evs, Rejected e)"
      using evs by (simp add: prod_eq_iff)
    then show ?thesis unfolding T_def by simp
  next
    case Pending
    then have "processRequest orig opts c = (ReadRequest opts # evs, Pending)"
      using evs by (simp add: prod_eq_iff)
    then show ?thesis unfolding T_def by simp
  qed
  have a: "filter is_read T = [ReadRequest opts]"
    using shape nr by (auto simp add: filter_is_read_none)
  have b: "handler_result c \<noteq> Pending \<and>
          (\<forall>resp. handler_result c = Resolved (Some resp) \<longrightarrow> write_result c \<noteq> Pending) \<and>
          close_result c \<noteq> Pending \<longrightarrow>
            last T = ConnClose \<and> count_list T ConnClose = 1"
  proof
    assume h: "handler_result c \<noteq> Pending \<and>
          (\<forall>resp. handler_result c = Resolved (Some resp) \<longrightarrow> write_result c \<noteq> Pending) \<and>
          close_result c \<noteq> Pending"
    obtain e where "snd (processRequest orig opts c) = Rejected e"
      using processRequest_close_header [OF assms] h by blast
    then have "processRequest orig opts c = (ReadRequest opts # evs, Rejected e)"
      using evs by (simp add: prod_eq_iff)
    then have "T = ReadRequest opts # evs @ [ConnClose]" unfolding T_def by simp
    then show "last T = ConnClose \<and> count_list T ConnClose = 1"
      using nc by (simp add: count_list_0_iff)
  qed
  have p: "take 1 (url req) = ''/'' \<and> handler_result c = Resolved (Some resp) \<and>
          write_result c = Pending \<longrightarrow>
            T = [ReadRequest opts, HandlerCalled (url req), HandlerReturned] \<and>
            ConnClose \<notin> set T"
  proof
    assume h: "take 1 (url req) = ''/'' \<and> handler_result c = Resolved (Some resp) \<and>
          write_result c = Pending"
    then have "processRequest orig opts c =
        ([ReadRequest opts, HandlerCalled (url req), HandlerReturned], Pending)"
      using processRequest_write_pending [of c req resp orig opts] assms(1) by simp
    then have "T = [ReadRequest opts, HandlerCalled (url req), HandlerReturned]"
      unfolding T_def by simp
    then show "T = [ReadRequest opts, HandlerCalled (url req), HandlerReturned] \<and>
            ConnClose \<notin> set T"
      by simp
  qed
  have f: "ResponseFlushed (Some resp) \<in> set T \<longrightarrow> write_result c = Resolved ()"
  proof
    assume "ResponseFlushed (Some resp) \<in> set T"
    then have "ResponseFlushed (Some resp) \<in> set (ReadRequest opts # evs)"
      using shape by auto
    then have "ResponseFlushed (Some resp) \<in> set (fst (processRequest orig opts c))"
      using evs by simp
    then show "write_result c = Resolved ()" by (rule processRequest_flushed)
  qed
  have d: "take 1 (url req) = ''/'' \<and> handler_result c = Resolved sub \<and>
          (sub = None \<or> write_result c = Resolved ()) \<and> close_result c = Resolved () \<longrightarrow>
            T = [ReadRequest opts, HandlerCalled (url req), HandlerReturned,
                 ResponseFlushed sub, BodyClosed, ConnClose]"
  proof
    assume h: "take 1 (url req) = ''/'' \<and> handler_result c = Resolved sub \<and>
          (sub = None \<or> write_result c = Resolved ()) \<and> close_result c = Resolved ()"
    then have r: "responded c sub = Resolved ()"
      by (cases sub) (auto simp add: responded_def)
    have pr: "processRequest orig opts c =
      ([ReadRequest opts, HandlerCalled (url req), HandlerReturned, ResponseFlushed sub,
        BodyClosed],
       decide orig opts req sub)"
      using processRequest_complete [of c req sub orig opts] assms(1) h r by simp
    have "\<exists>e. snd (processRequest orig opts c) = Rejected e"
      using processRequest_close_header [OF assms, of orig opts] h by auto
    then obtain e where "decide orig opts req sub = Rejected e"
      using pr by auto
    then show "T = [ReadRequest opts, HandlerCalled (url req), HandlerReturned,
                 ResponseFlushed sub, BodyClosed, ConnClose]"
      unfolding T_def using pr by simp
  qed
  show ?thesis using a b p f d unfolding T_def by blast
qed

theorem connection_close_header_closes_witness:
  "scheduleReadRequest example_opts example_first
     (example_cycle ''/a'' [(''connection'', ''close'')] None 200 #
      [example_cycle ''/b'' [] None 200]) =
     [ReadRequest example_first, HandlerCalled ''/a'', HandlerReturned,
      ResponseFlushed (Some \<lparr> status = 200 \<rparr>), BodyClosed, ConnClose] \<and>
   scheduleReadRequest example_opts example_first
     (\<lparr> read_result = Resolved \<lparr> url = ''/a'', headers = [(''connection'', ''close'')],
                                 keepAlive = None \<rparr>,
        handler_result = Resolved (Some \<lparr> status = 200 \<rparr>),
        write_result = Pending, close_result = Resolved () \<rparr> #
      [example_cycle ''/b'' [] None 200]) =
     [ReadRequest example_first, HandlerCalled ''/a'', HandlerReturned]"
  using connection_close_header_closes [where
      c = "example_cycle ''/a'' [(''connection'', ''close'')] None 200"
      and req = "\<lparr> url = ''/a'', headers = [(''connection'', ''close'')], keepAlive = None \<rparr>"
      and sub = "Some \<lparr> status = 200 \<rparr>" and orig = example_opts and opts = example_first
      and cs = "[example_cycle ''/b'' [] None 200]"]
    connection_close_header_closes [where
      c = "\<lparr> read_result = Resolved \<lparr> url = ''/a'', headers = [(''connection'', ''close'')],
                                 keepAlive = None \<rparr>,
        handler_result = Resolved (Some \<lparr> status = 200 \<rparr>),
        write_result = Pending, close_result = Resolved () \<rparr>"
      and req = "\<lparr> url = ''/a'', headers = [(''connection'', ''close'')], keepAlive = None \<rparr>"
      and resp = "\<lparr> status = 200 \<rparr>" and orig = example_opts and opts = example_first
      and cs = "[example_cycle ''/b'' [] None 200]"]
  by (simp add: headers_get_def)

text \<open>
  Claim C6. When a cycle is complete (the response flushed, the body closed, the status
  not 101) and the request declared keep-alive with a budget \<open>max\<close> that is not positive,
  \<^verbatim>\<open>processRequest\<close> rejects with \<^verbatim>\<open>keep-alive ended\<close> and the session calls
  \<^verbatim>\<open>conn.close()\<close> without reading another request.
\<close>

theorem keep_alive_exhausted_closes:
  assumes "read_result c = Resolved req" and "take 1 (url req) = ''/''"
    and "handler_result c = Resolved sub" and "responded c sub = Resolved ()"
    and "close_result c = Resolved ()"
    and "respondedStatus sub \<noteq> Some 101"
    and "keepAlive req = Some ka" and "max_ka ka = Finite m" and "m \<le> 0"
  shows "processRequest orig opts c =
           ([ReadRequest opts, HandlerCalled (url req), HandlerReturned,
             ResponseFlushed sub, BodyClosed], Rejected ''keep-alive ended'') \<and>
         scheduleReadRequest orig opts (c # cs) =
           [ReadRequest opts, HandlerCalled (url req), HandlerReturned,
            ResponseFlushed sub, BodyClosed, ConnClose]"
proof -
  have d: "decide orig opts req sub = Rejected ''keep-alive ended''"
    using assms(6-9) by (simp add: decide_def)
  have "processRequest orig opts c =
           ([ReadRequest opts, HandlerCalled (url req), HandlerReturned,
             ResponseFlushed sub, BodyClosed], Rejected ''keep-alive ended'')"
    using processRequest_complete [OF assms(1-5)] d by simp
  then show ?thesis by simp
qed


theorem keep_alive_exhausted_closes_witness:
  "scheduleReadRequest example_opts example_first
     (example_cycle ''/a'' [] (Some \<lparr> timeout = Finite 5, max_ka = Finite 0 \<rparr>) 200 #
      [example_cycle ''/b'' [] None 200]) =
     [ReadRequest example_first, HandlerCalled ''/a'', HandlerReturned,
      ResponseFlushed (Some \<lparr> status = 200 \<rparr>), BodyClosed, ConnClose]"
  using keep_alive_exhausted_closes [where
      c = "example_cycle ''/a'' [] (Some \<lparr> timeout = Finite 5, max_ka = Finite 0 \<rparr>) 200"
      and req = "\<lparr> url = ''/a'', headers = [],
         keepAlive = Some \<lparr> timeout = Finite 5, max_ka = Finite 0 \<rparr> \<rparr>"
      and sub = "Some \<lparr> status = 200 \<rparr>"
      and ka = "\<lparr> timeout = Finite 5, max_ka = Finite 0 \<rparr>" and m = 0
      and orig = example_opts and opts = example_first
      and cs = "[example_cycle ''/b'' [] None 200]"]
  by (simp add: responded_def respondedStatus_def)

text \<open>
  Claim C10. When the request that was read has a URL that does not begin with \<^verbatim>\<open>/\<close>,
  \<^verbatim>\<open>processRequest\<close> rejects with \<^verbatim>\<open>malformed url\<close> right after the read, the session
  calls \<^verbatim>\<open>conn.close()\<close> and ends, and the handler is not called.
\<close>

theorem malformed_url_closes:
  assumes "read_result c = Resolved req" and "take 1 (url req) \<noteq> ''/''"
  shows "processRequest orig opts c = ([ReadRequest opts], Rejected ''malformed url'') \<and>
         scheduleReadRequest orig opts (c # cs) = [ReadRequest opts, ConnClose] \<and>
         (\<forall>u. HandlerCalled u \<notin> set (scheduleReadRequest orig opts (c # cs)))"
proof -
  have "url_match (url req) = None" using assms(2) by (simp add: url_match_None_iff)
  then have "processRequest orig opts c = ([ReadRequest opts], Rejected ''malformed url'')"
    using assms(1) by (simp add: processRequest_def)
  then show ?thesis by simp
qed


theorem malformed_url_closes_witness:
  "scheduleReadRequest example_opts example_first
     (example_cycle ''http://host/a'' [] None 200 # [example_cycle ''/b'' [] None 200]) =
     [ReadRequest example_first, ConnClose]"
  using malformed_url_closes [where c = "example_cycle ''http://host/a'' [] None 200"
      and req = "\<lparr> url = ''http://host/a'', headers = [], keepAlive = None \<rparr>"
      and orig = example_opts and opts = example_first
      and cs = "[example_cycle ''/b'' [] None 200]"]
  by simp

section \<open>The supervisor: closing and cancelling\<close>













section \<open>The response dispatch queue: one write at a time, in submission order\<close>

lemma written_snoc: "written (ds @ [(t, ok)]) = written ds @ [WriteBegin t, WriteEnd t ok]"
  by (induction ds rule: written.induct) simp_all

lemma serialized_written: "serialized (written ds @ in_progress ts)"
proof (induction ds rule: written.induct)
  case 1
  then show ?case by (cases ts) (simp_all add: in_progress_def)
next
  case (2 t ok ds)
  then show ?case by simp
qed

lemma begun_written: "begun (written ds @ in_progress ts) = map fst ds @ take 1 ts"
proof (induction ds rule: written.induct)
  case 1
  then show ?case by (cases ts) (simp_all add: in_progress_def)
next
  case (2 t ok ds)
  then show ?case by simp
qed

lemma queue_inv_init: "queue_inv promiseWaitQueue []"
  unfolding queue_inv_def promiseWaitQueue_def
  by (rule exI [of _ "[]"]) (simp add: in_progress_def)

lemma queue_inv_enqueue:
  assumes "queue_inv q enq"
  shows "queue_inv (enqueue t q) (enq @ [t])"
proof -
  obtain ds where ds: "map fst ds @ queue q = enq" and w: "wire q = written ds @ in_progress (queue q)"
    using assms unfolding queue_inv_def by blast
  show ?thesis
  proof (cases "queue q")
    case Nil
    then have "map fst ds @ queue (enqueue t q) = enq @ [t] \<and>
      wire (enqueue t q) = written ds @ in_progress (queue (enqueue t q))"
      using ds w by (simp add: enqueue_def dequeue_def in_progress_def)
    then show ?thesis unfolding queue_inv_def by blast
  next
    case (Cons t0 ts)
    then have "map fst ds @ queue (enqueue t q) = enq @ [t] \<and>
      wire (enqueue t q) = written ds @ in_progress (queue (enqueue t q))"
      using ds w by (auto simp add: enqueue_def in_progress_def)
    then show ?thesis unfolding queue_inv_def by blast
  qed
qed

lemma queue_inv_settle:
  assumes "queue_inv q enq" and "settle ok q = Some q'"
  shows "queue_inv q' enq"
proof -
  obtain ds where ds: "map fst ds @ queue q = enq" and w: "wire q = written ds @ in_progress (queue q)"
    using assms(1) unfolding queue_inv_def by blast
  show ?thesis
  proof (cases "queue q")
    case Nil
    then show ?thesis using assms(2) by (simp add: settle_def)
  next
    case (Cons t ts)
    then have q': "q' = dequeue (q\<lparr> queue := ts, wire := wire q @ [WriteEnd t ok] \<rparr>)"
      using assms(2) by (simp add: settle_def)
    have wq: "wire q = written ds @ [WriteBegin t]"
      using w Cons by (simp add: in_progress_def)
    have qq: "queue q' = ts"
      unfolding q' by (cases ts) (simp_all add: dequeue_def)
    have ww: "wire q' = written (ds @ [(t, ok)]) @ in_progress ts"
      unfolding q' written_snoc by (cases ts) (simp_all add: dequeue_def wq in_progress_def)
    have "map fst (ds @ [(t, ok)]) @ queue q' = enq"
      using ds Cons qq by simp
    moreover have "wire q' = written (ds @ [(t, ok)]) @ in_progress (queue q')"
      using ww qq by simp
    ultimately show ?thesis unfolding queue_inv_def by blast
  qed
qed

lemma queue_inv_run:
  "queue_inv q enq \<Longrightarrow> queue_run q ins = Some q' \<Longrightarrow> queue_inv q' (enq @ enqueued ins)"
proof (induction ins arbitrary: q enq)
  case Nil
  then show ?case by simp
next
  case (Cons i ins)
  show ?case
  proof (cases i)
    case (Enqueue t)
    have r: "queue_run (enqueue t q) ins = Some q'"
      using Cons.prems(2) unfolding Enqueue by simp
    have "queue_inv (enqueue t q) (enq @ [t])"
      using Cons.prems(1) by (rule queue_inv_enqueue)
    then have "queue_inv q' ((enq @ [t]) @ enqueued ins)"
      using r by (rule Cons.IH)
    then show ?thesis unfolding Enqueue by simp
  next
    case (Settle ok)
    have "\<exists>q1. settle ok q = Some q1 \<and> queue_run q1 ins = Some q'"
      using Cons.prems(2) unfolding Settle by (cases "settle ok q") simp_all
    then obtain q1 where q1: "settle ok q = Some q1" and r: "queue_run q1 ins = Some q'"
      by blast
    have "queue_inv q1 enq" using Cons.prems(1) q1 by (rule queue_inv_settle)
    then have "queue_inv q' (enq @ enqueued ins)" using r by (rule Cons.IH)
    then show ?thesis unfolding Settle by simp
  qed
qed

text \<open>
  Claim C1. Whatever the order in which responses are submitted to the queue of a
  connection and writes come to their end, the writes do not overlap, each one beginning
  only after the one before has ended, and they begin in the order of submission: the
  responses whose write has begun, followed by those still waiting behind the one in
  progress, are the submitted responses in the order they were submitted.
\<close>

theorem responses_written_in_submission_order:
  assumes "queue_run promiseWaitQueue ins = Some q"
  shows "serialized (wire q) \<and> begun (wire q) @ tl (queue q) = enqueued ins"
proof -
  have "queue_inv q ([] @ enqueued ins)"
    using queue_inv_run [OF queue_inv_init assms] .
  then obtain ds where ds: "map fst ds @ queue q = enqueued ins"
    and w: "wire q = written ds @ in_progress (queue q)"
    unfolding queue_inv_def by auto
  have "serialized (wire q)" using w serialized_written by simp
  moreover have "begun (wire q) @ tl (queue q) = enqueued ins"
    using w ds by (cases "queue q") (simp_all add: begun_written)
  ultimately show ?thesis by blast
qed


theorem responses_written_in_submission_order_witness:
  "queue_run promiseWaitQueue
     [Enqueue \<lparr> status = 200 \<rparr>, Enqueue \<lparr> status = 404 \<rparr>, Settle True,
      Enqueue \<lparr> status = 500 \<rparr>] =
     Some \<lparr> queue = [\<lparr> status = 404 \<rparr>, \<lparr> status = 500 \<rparr>],
            wire = [WriteBegin \<lparr> status = 200 \<rparr>, WriteEnd \<lparr> status = 200 \<rparr> True,
                    WriteBegin \<lparr> status = 404 \<rparr>] \<rparr> \<and>
   serialized [WriteBegin \<lparr> status = 200 \<rparr>, WriteEnd \<lparr> status = 200 \<rparr> True,
               WriteBegin \<lparr> status = 404 \<rparr>] \<and>
   begun [WriteBegin \<lparr> status = 200 \<rparr>, WriteEnd \<lparr> status = 200 \<rparr> True,
          WriteBegin \<lparr> status = 404 \<rparr>] @ [\<lparr> status = 500 \<rparr>] =
     [\<lparr> status = 200 \<rparr>, \<lparr> status = 404 \<rparr>, \<lparr> status = 500 \<rparr>]"
proof -
  have h: "queue_run promiseWaitQueue
     [Enqueue \<lparr> status = 200 \<rparr>, Enqueue \<lparr> status = 404 \<rparr>, Settle True,
      Enqueue \<lparr> status = 500 \<rparr>] =
     Some \<lparr> queue = [\<lparr> status = 404 \<rparr>, \<lparr> status = 500 \<rparr>],
            wire = [WriteBegin \<lparr> status = 200 \<rparr>, WriteEnd \<lparr> status = 200 \<rparr> True,
                    WriteBegin \<lparr> status = 404 \<rparr>] \<rparr>"
    by (simp add: promiseWaitQueue_def enqueue_def dequeue_def settle_def)
  show ?thesis using h responses_written_in_submission_order [OF h] by simp
qed

section \<open>The entry points and their defaults\<close>

text \<open>
  What \<^verbatim>\<open>listenAndServe\<close> does when the options are left out: every connection it
  accepts is served with the defaults that \<^verbatim>\<open>initServeOptions\<close> filled in.
\<close>

lemma listenAndServe_defaults:
  "map_option sessions (sup_run (listenAndServe None) [AcceptResolved c]) =
     Some [(c, \<lparr> cancel = None, keepAliveTimeout = Some (Finite 75000),
                  readTimeout = Some (Finite 75000) \<rparr>)]"
  by (simp add: listenAndServe_def listenInternal_def initServeOptions_def no_options_def
      acceptRoutine_def cancelled_def throwIfCancelled_can_resolve_def)

text \<open>
  Claim C9. The claim holds for \<^verbatim>\<open>listenAndServe\<close> and fails for \<^verbatim>\<open>listenAndServeTls\<close>,
  which does not call \<^verbatim>\<open>initServeOptions\<close>: with the options left out, a connection it
  accepts is served with \<^verbatim>\<open>{}\<close>, so the first read is issued with both timeouts
  \<^verbatim>\<open>undefined\<close>, and after a cycle whose request declared keep-alive the next read is issued
  with the keep-alive timeout \<^verbatim>\<open>Math.min(undefined, 5 * 1000)\<close>, which is \<^verbatim>\<open>NaN\<close>, where
  the defaults would give 5000.
\<close>

theorem listenAndServeTls_without_defaults:
  "map_option sessions (sup_run (listenAndServeTls None) [AcceptResolved c]) =
     Some [(c, \<lparr> cancel = None, keepAliveTimeout = None, readTimeout = None \<rparr>)] \<and>
   handleKeepAliveConn \<lparr> cancel = None, keepAliveTimeout = None, readTimeout = None \<rparr>
     [example_cycle ''/a'' [] (Some \<lparr> timeout = Finite 5, max_ka = Finite 100 \<rparr>) 200] =
     [ReadRequest \<lparr> cancel = None, keepAliveTimeout = None, readTimeout = None \<rparr>,
      HandlerCalled ''/a'', HandlerReturned, ResponseFlushed (Some \<lparr> status = 200 \<rparr>),
      BodyClosed,
      ReadRequest \<lparr> cancel = None, keepAliveTimeout = Some NaN, readTimeout = None \<rparr>] \<and>
   handleKeepAliveConn \<lparr> cancel = None, keepAliveTimeout = Some (Finite 75000),
                          readTimeout = Some (Finite 75000) \<rparr>
     [example_cycle ''/a'' [] (Some \<lparr> timeout = Finite 5, max_ka = Finite 100 \<rparr>) 200] =
     [ReadRequest \<lparr> cancel = None, keepAliveTimeout = Some (Finite 75000),
                    readTimeout = Some (Finite 75000) \<rparr>,
      HandlerCalled ''/a'', HandlerReturned, ResponseFlushed (Some \<lparr> status = 200 \<rparr>),
      BodyClosed,
      ReadRequest \<lparr> cancel = None, keepAliveTimeout = Some (Finite 5000),
                    readTimeout = Some (Finite 75000) \<rparr>]"
  by (simp add: listenAndServeTls_def listenInternal_def no_options_def acceptRoutine_def
      cancelled_def throwIfCancelled_can_resolve_def handleKeepAliveConn_def processRequest_def
      round_double_def responded_def decide_def
      respondedStatus_def headers_get_def)

end
